theory Spec2Isabelle
  imports Main "HOL-Library.Word"
begin

unbundle bit_operations_syntax

section \<open>Byte sinks\<close>

text \<open>
  The package writes ESC/POS command bytes to a byte sink and, in \<^verbatim>\<open>cmd/multi.go\<close>,
  replicates every call over a list of printers. The printers are Go values whose
  \<^verbatim>\<open>Read\<close>, \<open>Write\<close> and \<open>Close\<close> methods do I/O on a device. The embedding makes
  that I/O explicit: the state of the outside world is the list of calls the devices
  have received so far, oldest first, and a device answers a call as a function of that
  history. A device is named by a handle of type \<open>'p\<close>, so the same device listed twice
  is the same handle twice; \<open>'e\<close> is the type of Go's error values, and \<open>None\<close> is
  \<^verbatim>\<open>nil\<close>.
\<close>

type_synonym byte = "8 word"

datatype 'p event =
    WriteCall 'p "byte list"  \<comment> \<open>\<^verbatim>\<open>printer.Write(p)\<close> with the bytes of \<open>p\<close>\<close>
  | ReadCall 'p nat           \<comment> \<open>\<^verbatim>\<open>printer.Read(p)\<close> with \<open>len(p)\<close>\<close>
  | CloseCall 'p              \<comment> \<open>\<^verbatim>\<open>printer.Close()\<close>\<close>

text \<open>
  How the devices answer. \<open>sink_Write h pr p\<close> is the pair \<open>(n, err)\<close> that
  \<^verbatim>\<open>pr.Write(p)\<close> returns after the calls \<open>h\<close>; \<open>sink_Read h pr k\<close> is what
  \<^verbatim>\<open>pr.Read(p)\<close> does with a buffer of length \<open>k\<close>: the bytes it stores at the front of
  the buffer, and the \<open>(n, err)\<close> it returns; \<open>sink_Close h pr\<close> is the error of
  \<^verbatim>\<open>pr.Close()\<close>. Nothing is assumed about these answers, but that a read does not
  look at what the buffer held before.
\<close>

record ('p, 'e) sinks =
  sink_Write :: "'p event list \<Rightarrow> 'p \<Rightarrow> byte list \<Rightarrow> int \<times> 'e option"
  sink_Read :: "'p event list \<Rightarrow> 'p \<Rightarrow> nat \<Rightarrow> byte list \<times> int \<times> 'e option"
  sink_Close :: "'p event list \<Rightarrow> 'p \<Rightarrow> 'e option"

text \<open>
  A callee cannot change the length of the caller's slice: the bytes a read stores
  overwrite the front of the buffer, and what does not fit is dropped.
\<close>

definition fill :: "byte list \<Rightarrow> byte list \<Rightarrow> byte list" where
  "fill buf data = take (length buf) (data @ drop (length data) buf)"

text \<open>The calls a run of one loop adds to the history, for a list of printers.\<close>

definition writes :: "byte list \<Rightarrow> 'p list \<Rightarrow> 'p event list" where
  "writes p prs = map (\<lambda>pr. WriteCall pr p) prs"

definition reads :: "nat \<Rightarrow> 'p list \<Rightarrow> 'p event list" where
  "reads k prs = map (\<lambda>pr. ReadCall pr k) prs"

definition closes :: "'p list \<Rightarrow> 'p event list" where
  "closes prs = map CloseCall prs"

text \<open>
  What a device has received: the bytes of every \<open>Write\<close> call made on it, in order
  (the contents of a \<^verbatim>\<open>bytes.Buffer\<close> used as the sink).
\<close>

fun received :: "'p \<Rightarrow> 'p event list \<Rightarrow> byte list" where
  "received pr [] = []"
| "received pr (WriteCall q bs # h) = (if q = pr then bs @ received pr h else received pr h)"
| "received pr (ReadCall q k # h) = received pr h"
| "received pr (CloseCall q # h) = received pr h"

section \<open>The fan-out sink: \<^verbatim>\<open>cmd/multi.go\<close>\<close>

record 'p MultiPrinter =
  dst :: "'p list"

definition NewMultiPrinter :: "'p list \<Rightarrow> 'p MultiPrinter" where
  "NewMultiPrinter printers = \<lparr>dst = printers\<rparr>"

text \<open>
  \<^verbatim>\<open>for _, printer := range mp.dst { n, err := printer.Read(p); if err != nil { return n, err } }
  return 0, nil\<close>
  The result is \<open>((n, err), buffer, history)\<close>.
\<close>

fun Read_loop ::
  "('p, 'e) sinks \<Rightarrow> 'p list \<Rightarrow> byte list \<Rightarrow> 'p event list
    \<Rightarrow> (int \<times> 'e option) \<times> byte list \<times> 'p event list" where
  "Read_loop io [] p h = ((0, None), p, h)"
| "Read_loop io (printer # rest) p h =
     (case sink_Read io h printer (length p) of
        (data, n, Some err) \<Rightarrow> ((n, Some err), fill p data, h @ [ReadCall printer (length p)])
      | (data, n, None) \<Rightarrow> Read_loop io rest (fill p data) (h @ [ReadCall printer (length p)]))"

definition MultiPrinter_Read ::
  "('p, 'e) sinks \<Rightarrow> 'p MultiPrinter \<Rightarrow> byte list \<Rightarrow> 'p event list
    \<Rightarrow> (int \<times> 'e option) \<times> byte list \<times> 'p event list" where
  "MultiPrinter_Read io mp p h = Read_loop io (dst mp) p h"

text \<open>
  \<^verbatim>\<open>for _, printer := range mp.dst { n, err := printer.Write(p); if err != nil { return n, err } }
  return 0, nil\<close>
\<close>

fun Write_loop ::
  "('p, 'e) sinks \<Rightarrow> 'p list \<Rightarrow> byte list \<Rightarrow> 'p event list
    \<Rightarrow> (int \<times> 'e option) \<times> 'p event list" where
  "Write_loop io [] p h = ((0, None), h)"
| "Write_loop io (printer # rest) p h =
     (case sink_Write io h printer p of
        (n, Some err) \<Rightarrow> ((n, Some err), h @ [WriteCall printer p])
      | (n, None) \<Rightarrow> Write_loop io rest p (h @ [WriteCall printer p]))"

definition MultiPrinter_Write ::
  "('p, 'e) sinks \<Rightarrow> 'p MultiPrinter \<Rightarrow> byte list \<Rightarrow> 'p event list
    \<Rightarrow> (int \<times> 'e option) \<times> 'p event list" where
  "MultiPrinter_Write io mp p h = Write_loop io (dst mp) p h"

text \<open>
  \<^verbatim>\<open>for _, printer := range mp.dst { err := printer.Close(); if err != nil { return err } }
  return nil\<close>
\<close>

fun Close_loop ::
  "('p, 'e) sinks \<Rightarrow> 'p list \<Rightarrow> 'p event list \<Rightarrow> 'e option \<times> 'p event list" where
  "Close_loop io [] h = (None, h)"
| "Close_loop io (printer # rest) h =
     (case sink_Close io h printer of
        Some err \<Rightarrow> (Some err, h @ [CloseCall printer])
      | None \<Rightarrow> Close_loop io rest (h @ [CloseCall printer]))"

definition MultiPrinter_Close ::
  "('p, 'e) sinks \<Rightarrow> 'p MultiPrinter \<Rightarrow> 'p event list \<Rightarrow> 'e option \<times> 'p event list" where
  "MultiPrinter_Close io mp h = Close_loop io (dst mp) h"

text \<open>
  Test doubles: devices numbered by \<open>nat\<close>, errors as messages. A device in \<open>bad\<close>
  fails every call; the others accept all of \<open>p\<close> on a write, fill the whole buffer
  with \<open>0x2A\<close> on a read, and close cleanly.
\<close>

definition doubles :: "nat list \<Rightarrow> (nat, string) sinks" where
  "doubles bad =
     \<lparr>sink_Write = (\<lambda>h pr p.
        if pr \<in> set bad then (0, Some ''write failed'') else (int (length p), None)),
      sink_Read = (\<lambda>h pr k.
        if pr \<in> set bad then ([], 0, Some ''read failed'') else (replicate k 0x2A, int k, None)),
      sink_Close = (\<lambda>h pr.
        if pr \<in> set bad then Some ''close failed'' else None)\<rparr>"

text \<open>
  The calls of one run, named by position: the write (read, close) on the \<open>j\<close>-th
  printer of \<open>ds\<close>, made after the calls on the printers before it, returns a
  \<^verbatim>\<open>nil\<close> error.
\<close>

definition write_ok ::
  "('p, 'e) sinks \<Rightarrow> 'p list \<Rightarrow> byte list \<Rightarrow> 'p event list \<Rightarrow> nat \<Rightarrow> bool" where
  "write_ok io ds p h j = (snd (sink_Write io (h @ writes p (take j ds)) (ds ! j) p) = None)"

definition read_ok ::
  "('p, 'e) sinks \<Rightarrow> 'p list \<Rightarrow> nat \<Rightarrow> 'p event list \<Rightarrow> nat \<Rightarrow> bool" where
  "read_ok io ds k h j = (snd (snd (sink_Read io (h @ reads k (take j ds)) (ds ! j) k)) = None)"

definition close_ok :: "('p, 'e) sinks \<Rightarrow> 'p list \<Rightarrow> 'p event list \<Rightarrow> nat \<Rightarrow> bool" where
  "close_ok io ds h j = (sink_Close io (h @ closes (take j ds)) (ds ! j) = None)"

text \<open>
  The bytes the read on the \<open>j\<close>-th printer of \<open>ds\<close> stores in the buffer, made
  after the reads on the printers before it.
\<close>

definition read_data ::
  "('p, 'e) sinks \<Rightarrow> 'p list \<Rightarrow> nat \<Rightarrow> 'p event list \<Rightarrow> nat \<Rightarrow> byte list" where
  "read_data io ds k h j = fst (sink_Read io (h @ reads k (take j ds)) (ds ! j) k)"

text \<open>
  A second test double: a device in \<open>bad\<close> stores the one byte \<open>0x08\<close> and returns
  \<open>(1, EOF)\<close> on a read, as a reader at the end of its input may; the others are
  the healthy devices of \<open>doubles\<close>.
\<close>

definition eof_doubles :: "nat list \<Rightarrow> (nat, string) sinks" where
  "eof_doubles bad =
     (doubles [])\<lparr>sink_Read := (\<lambda>h pr k.
        if pr \<in> set bad then ([0x08], 1, Some ''EOF'') else (replicate k 0x2A, int k, None))\<rparr>"

section \<open>The printer session\<close>

text \<open>
  The package's own source file (the \<^verbatim>\<open>Printer\<close> type, \<^verbatim>\<open>NewPrinter\<close> and the
  command methods) is not among the sources: only its tests and its callers are. The
  definitions of this section follow the specification, sections 4.1, 4.3 and 7, and
  keep the method names the tests and callers use.
\<close>

text \<open>
  Modelled from the spec: the error kinds of section 7; the package's declaration of
  its errors is missing. \<open>IOError\<close> wraps the sink's own error, and carries \<open>None\<close>
  for a short read that came with no error of the sink.
\<close>

datatype 'e error = InvalidParameter | ImageTooLarge | IOError "'e option" | ClosedSession

text \<open>
  Modelled from the spec: the \<^verbatim>\<open>Printer\<close> struct is missing. A session wraps exactly
  one byte sink, and calls on a closed session fail, so it has the sink's handle and
  whether it was closed.
\<close>

record 'p Printer =
  sink :: 'p
  closed :: bool

text \<open>Modelled from the spec: \<^verbatim>\<open>NewPrinter\<close> is missing; a session is created by binding a sink.\<close>

definition NewPrinter :: "'p \<Rightarrow> 'p Printer" where
  "NewPrinter w = \<lparr>sink = w, closed = False\<rparr>"

text \<open>
  Modelled from the spec: the command encoders are missing. The table of section 4.1:
  horizontal tab \<open>0x09\<close>, line feed \<open>0x0A\<close>, carriage return \<open>0x0D\<close>, initialize
  \<open>ESC '@'\<close>, character size \<open>GS '!' (height<<4 | width)\<close> with width and height each
  0 to 7 and \<open>InvalidParameter\<close> otherwise, raw bytes and text verbatim.
\<close>

definition encode_HT :: "'e error + byte list" where
  "encode_HT = Inr [0x09]"

definition encode_LF :: "'e error + byte list" where
  "encode_LF = Inr [0x0A]"

definition encode_CR :: "'e error + byte list" where
  "encode_CR = Inr [0x0D]"

definition encode_Initialize :: "'e error + byte list" where
  "encode_Initialize = Inr [0x1B, 0x40]"

definition encode_SetCharacterSize :: "int \<Rightarrow> int \<Rightarrow> 'e error + byte list" where
  "encode_SetCharacterSize width height =
     (if 0 \<le> width \<and> width \<le> 7 \<and> 0 \<le> height \<and> height \<le> 7
      then Inr [0x1D, 0x21, push_bit 4 (word_of_int height) OR word_of_int width]
      else Inl InvalidParameter)"

definition encode_Raw :: "byte list \<Rightarrow> 'e error + byte list" where
  "encode_Raw b = Inr b"

text \<open>
  Modelled from the spec: the body shared by the session's methods is missing. Section
  4.3: every method encodes, then performs exactly one write call to the bound sink
  with the resulting bytes and returns the sink's write error; section 4.1: a
  constraint that fails is reported before any byte touches the sink; a call on a
  closed session fails with \<open>ClosedSession\<close>.
\<close>

definition Printer_command ::
  "('p, 'e) sinks \<Rightarrow> 'p Printer \<Rightarrow> 'e error + byte list \<Rightarrow> 'p event list
    \<Rightarrow> 'e error option \<times> 'p event list" where
  "Printer_command io s enc h =
     (if closed s then (Some ClosedSession, h)
      else case enc of
        Inl err \<Rightarrow> (Some err, h)
      | Inr bs \<Rightarrow>
          (map_option (\<lambda>e. IOError (Some e)) (snd (sink_Write io h (sink s) bs)),
           h @ [WriteCall (sink s) bs]))"

text \<open>
  Modelled from the spec: the methods \<^verbatim>\<open>HT\<close>, \<^verbatim>\<open>LF\<close>, \<^verbatim>\<open>CR\<close>, \<^verbatim>\<open>Initialize\<close>,
  \<^verbatim>\<open>SetCharacterSize\<close>, \<^verbatim>\<open>WriteRaw\<close> and \<^verbatim>\<open>Print\<close> are missing; each is its
  encoder followed by the one write (section 4.3). A Go string is a sequence of bytes,
  and the text of \<^verbatim>\<open>Print\<close> and \<^verbatim>\<open>Println\<close> is taken as its bytes.
\<close>

definition Printer_HT ::
  "('p, 'e) sinks \<Rightarrow> 'p Printer \<Rightarrow> 'p event list \<Rightarrow> 'e error option \<times> 'p event list" where
  "Printer_HT io s h = Printer_command io s encode_HT h"

definition Printer_LF ::
  "('p, 'e) sinks \<Rightarrow> 'p Printer \<Rightarrow> 'p event list \<Rightarrow> 'e error option \<times> 'p event list" where
  "Printer_LF io s h = Printer_command io s encode_LF h"

definition Printer_CR ::
  "('p, 'e) sinks \<Rightarrow> 'p Printer \<Rightarrow> 'p event list \<Rightarrow> 'e error option \<times> 'p event list" where
  "Printer_CR io s h = Printer_command io s encode_CR h"

definition Printer_Initialize ::
  "('p, 'e) sinks \<Rightarrow> 'p Printer \<Rightarrow> 'p event list \<Rightarrow> 'e error option \<times> 'p event list" where
  "Printer_Initialize io s h = Printer_command io s encode_Initialize h"

definition Printer_SetCharacterSize ::
  "('p, 'e) sinks \<Rightarrow> 'p Printer \<Rightarrow> int \<Rightarrow> int \<Rightarrow> 'p event list
    \<Rightarrow> 'e error option \<times> 'p event list" where
  "Printer_SetCharacterSize io s width height h =
     Printer_command io s (encode_SetCharacterSize width height) h"

definition Printer_WriteRaw ::
  "('p, 'e) sinks \<Rightarrow> 'p Printer \<Rightarrow> byte list \<Rightarrow> 'p event list
    \<Rightarrow> 'e error option \<times> 'p event list" where
  "Printer_WriteRaw io s b h = Printer_command io s (encode_Raw b) h"

definition Printer_Print ::
  "('p, 'e) sinks \<Rightarrow> 'p Printer \<Rightarrow> byte list \<Rightarrow> 'p event list
    \<Rightarrow> 'e error option \<times> 'p event list" where
  "Printer_Print io s str h = Printer_command io s (encode_Raw str) h"

text \<open>
  Modelled from the spec: \<^verbatim>\<open>Println\<close> is missing. Section 4.3: the composite
  \<open>Println\<close> is write + line feed; a failure is returned at once (section 7).
\<close>

definition Printer_Println ::
  "('p, 'e) sinks \<Rightarrow> 'p Printer \<Rightarrow> byte list \<Rightarrow> 'p event list
    \<Rightarrow> 'e error option \<times> 'p event list" where
  "Printer_Println io s str h =
     (case Printer_Print io s str h of
        (Some err, h') \<Rightarrow> (Some err, h')
      | (None, h') \<Rightarrow> Printer_LF io s h')"

text \<open>
  Modelled from the spec: the status read (\<^verbatim>\<open>TransmitErrorStatus\<close> to its callers) is
  missing. Section 4.3: it issues a single fixed query command, then reads exactly one
  byte from the sink, and fails with \<open>IOError\<close> on a short read or a sink error. The
  spec does not give the bytes of the query: they are the parameter \<open>query\<close>.
\<close>

definition Printer_TransmitErrorStatus ::
  "('p, 'e) sinks \<Rightarrow> byte list \<Rightarrow> 'p Printer \<Rightarrow> 'p event list
    \<Rightarrow> ('e error + byte) \<times> 'p event list" where
  "Printer_TransmitErrorStatus io query s h =
     (case Printer_command io s (Inr query) h of
        (Some err, h') \<Rightarrow> (Inl err, h')
      | (None, h') \<Rightarrow>
          (case sink_Read io h' (sink s) 1 of
             (data, n, Some e) \<Rightarrow> (Inl (IOError (Some e)), h' @ [ReadCall (sink s) 1])
           | (data, n, None) \<Rightarrow>
               (if n = 1 \<and> data \<noteq> [] then (Inr (hd data), h' @ [ReadCall (sink s) 1])
                else (Inl (IOError None), h' @ [ReadCall (sink s) 1]))))"

text \<open>
  Modelled from the spec: \<^verbatim>\<open>Close\<close> of the session is missing. Section 4.3: close
  releases the underlying sink, and subsequent calls on a closed session fail with
  \<open>ClosedSession\<close>. The session is closed whatever the sink's close returns, and
  the sink's error is returned wrapped. The result is \<open>(err, session, history)\<close>.
\<close>

definition Printer_Close ::
  "('p, 'e) sinks \<Rightarrow> 'p Printer \<Rightarrow> 'p event list
    \<Rightarrow> 'e error option \<times> 'p Printer \<times> 'p event list" where
  "Printer_Close io s h =
     (if closed s then (Some ClosedSession, s, h)
      else (map_option (\<lambda>e. IOError (Some e)) (sink_Close io h (sink s)),
            s\<lparr>closed := True\<rparr>, h @ [CloseCall (sink s)]))"

text \<open>The sink's write of \<open>bs\<close> on device \<open>pr\<close>, after the calls \<open>h\<close>, succeeds.\<close>

definition accepts :: "('p, 'e) sinks \<Rightarrow> 'p event list \<Rightarrow> 'p \<Rightarrow> byte list \<Rightarrow> bool" where
  "accepts io h pr bs = (snd (sink_Write io h pr bs) = None)"

section \<open>Lemmas on the three loops\<close>

lemma length_fill: "length (fill buf data) = length buf"
  by (simp add: fill_def)

lemma received_append: "received pr (h @ h') = received pr h @ received pr h'"
  by (induction pr h rule: received.induct) simp_all

text \<open>
  Each loop is followed down the list: the head's call either fails, and the loop
  returns, or succeeds, and the rest runs on the history with that call added.
\<close>

lemma Write_loop_first_failure:
  "i < length ds \<Longrightarrow>
   (\<forall>j<i. snd (sink_Write io (h @ writes p (take j ds)) (ds ! j) p) = None) \<Longrightarrow>
   sink_Write io (h @ writes p (take i ds)) (ds ! i) p = (n, Some e) \<Longrightarrow>
   Write_loop io ds p h = ((n, Some e), h @ writes p (take (Suc i) ds))"
proof (induction ds arbitrary: h i)
  case Nil
  then show ?case by simp
next
  case (Cons x xs)
  show ?case
  proof (cases i)
    case 0
    with Cons.prems(3) show ?thesis by (simp add: writes_def)
  next
    case (Suc k)
    from Cons.prems(2)[rule_format, of 0] Suc have w: "snd (sink_Write io h x p) = None"
      by (simp add: writes_def)
    have rest: "\<forall>j<k. snd (sink_Write io ((h @ [WriteCall x p]) @ writes p (take j xs)) (xs ! j) p) = None"
    proof (intro allI impI)
      fix j assume "j < k"
      with Cons.prems(2)[rule_format, of "Suc j"] Suc
      show "snd (sink_Write io ((h @ [WriteCall x p]) @ writes p (take j xs)) (xs ! j) p) = None"
        by (simp add: writes_def)
    qed
    from Cons.prems(1) Suc have k: "k < length xs" by simp
    from Cons.prems(3) Suc
    have "sink_Write io ((h @ [WriteCall x p]) @ writes p (take k xs)) (xs ! k) p = (n, Some e)"
      by (simp add: writes_def)
    from Cons.IH[OF k rest this] w Suc show ?thesis
      by (cases "sink_Write io h x p") (simp add: writes_def)
  qed
qed

lemma Write_loop_all_ok:
  "(\<forall>j<length ds. snd (sink_Write io (h @ writes p (take j ds)) (ds ! j) p) = None) \<Longrightarrow>
   Write_loop io ds p h = ((0, None), h @ writes p ds)"
proof (induction ds arbitrary: h)
  case Nil
  then show ?case by (simp add: writes_def)
next
  case (Cons x xs)
  from Cons.prems[rule_format, of 0] have w: "snd (sink_Write io h x p) = None"
    by (simp add: writes_def)
  have rest: "\<forall>j<length xs. snd (sink_Write io ((h @ [WriteCall x p]) @ writes p (take j xs)) (xs ! j) p) = None"
  proof (intro allI impI)
    fix j assume "j < length xs"
    with Cons.prems[rule_format, of "Suc j"]
    show "snd (sink_Write io ((h @ [WriteCall x p]) @ writes p (take j xs)) (xs ! j) p) = None"
      by (simp add: writes_def)
  qed
  from Cons.IH[OF rest] w show ?case
    by (cases "sink_Write io h x p") (simp add: writes_def)
qed

lemma Write_loop_count: "snd (fst (Write_loop io ds p h)) = None \<Longrightarrow> fst (fst (Write_loop io ds p h)) = 0"
proof (induction ds arbitrary: h)
  case Nil
  then show ?case by simp
next
  case (Cons x xs)
  obtain m r where w: "sink_Write io h x p = (m, r)" by (cases "sink_Write io h x p")
  from Cons.prems w have r: "r = None" by (cases r) simp_all
  with Cons.prems w have "snd (fst (Write_loop io xs p (h @ [WriteCall x p]))) = None" by simp
  from Cons.IH[OF this] w r show ?case by simp
qed

lemma Read_loop_first_failure:
  "i < length ds \<Longrightarrow>
   (\<forall>j<i. snd (snd (sink_Read io (h @ reads (length p) (take j ds)) (ds ! j) (length p))) = None) \<Longrightarrow>
   snd (sink_Read io (h @ reads (length p) (take i ds)) (ds ! i) (length p)) = (n, Some e) \<Longrightarrow>
   fst (Read_loop io ds p h) = (n, Some e) \<and>
   snd (snd (Read_loop io ds p h)) = h @ reads (length p) (take (Suc i) ds)"
proof (induction ds arbitrary: h i p)
  case Nil
  then show ?case by simp
next
  case (Cons x xs)
  obtain d m r where rd: "sink_Read io h x (length p) = (d, m, r)"
    by (cases "sink_Read io h x (length p)")
  show ?case
  proof (cases i)
    case 0
    with Cons.prems(3) rd show ?thesis by (simp add: reads_def)
  next
    case (Suc k)
    from Cons.prems(2)[rule_format, of 0] Suc rd have r: "r = None"
      by (simp add: reads_def)
    let ?p = "fill p d"
    have len: "length ?p = length p" by (rule length_fill)
    have rest: "\<forall>j<k. snd (snd (sink_Read io ((h @ [ReadCall x (length p)]) @ reads (length ?p) (take j xs)) (xs ! j) (length ?p))) = None"
    proof (intro allI impI)
      fix j assume "j < k"
      with Cons.prems(2)[rule_format, of "Suc j"] Suc len
      show "snd (snd (sink_Read io ((h @ [ReadCall x (length p)]) @ reads (length ?p) (take j xs)) (xs ! j) (length ?p))) = None"
        by (simp add: reads_def)
    qed
    from Cons.prems(1) Suc have k: "k < length xs" by simp
    from Cons.prems(3) Suc len
    have "snd (sink_Read io ((h @ [ReadCall x (length p)]) @ reads (length ?p) (take k xs)) (xs ! k) (length ?p)) = (n, Some e)"
      by (simp add: reads_def)
    from Cons.IH[OF k rest this] rd r Suc len show ?thesis
      by (simp add: reads_def)
  qed
qed

lemma Read_loop_all_ok:
  "(\<forall>j<length ds. snd (snd (sink_Read io (h @ reads (length p) (take j ds)) (ds ! j) (length p))) = None) \<Longrightarrow>
   fst (Read_loop io ds p h) = (0, None) \<and>
   snd (snd (Read_loop io ds p h)) = h @ reads (length p) ds"
proof (induction ds arbitrary: h p)
  case Nil
  then show ?case by (simp add: reads_def)
next
  case (Cons x xs)
  obtain d m r where rd: "sink_Read io h x (length p) = (d, m, r)"
    by (cases "sink_Read io h x (length p)")
  from Cons.prems[rule_format, of 0] rd have r: "r = None"
    by (simp add: reads_def)
  let ?p = "fill p d"
  have len: "length ?p = length p" by (rule length_fill)
  have rest: "\<forall>j<length xs. snd (snd (sink_Read io ((h @ [ReadCall x (length p)]) @ reads (length ?p) (take j xs)) (xs ! j) (length ?p))) = None"
  proof (intro allI impI)
    fix j assume "j < length xs"
    with Cons.prems[rule_format, of "Suc j"] len
    show "snd (snd (sink_Read io ((h @ [ReadCall x (length p)]) @ reads (length ?p) (take j xs)) (xs ! j) (length ?p))) = None"
      by (simp add: reads_def)
  qed
  from Cons.IH[OF rest] rd r len show ?case
    by (simp add: reads_def)
qed

lemma Read_loop_ok_only_if:
  "snd (fst (Read_loop io ds p h)) = None \<Longrightarrow>
   fst (fst (Read_loop io ds p h)) = 0 \<and>
   (\<forall>j<length ds. snd (snd (sink_Read io (h @ reads (length p) (take j ds)) (ds ! j) (length p))) = None)"
proof (induction ds arbitrary: h p)
  case Nil
  then show ?case by simp
next
  case (Cons x xs)
  obtain d m r where rd: "sink_Read io h x (length p) = (d, m, r)"
    by (cases "sink_Read io h x (length p)")
  from Cons.prems rd have r: "r = None" by (cases r) simp_all
  let ?p = "fill p d"
  have len: "length ?p = length p" by (rule length_fill)
  from Cons.prems rd r have "snd (fst (Read_loop io xs ?p (h @ [ReadCall x (length p)]))) = None"
    by simp
  from Cons.IH[OF this] len
  have ih: "fst (fst (Read_loop io xs ?p (h @ [ReadCall x (length p)]))) = 0"
    "\<forall>j<length xs. snd (snd (sink_Read io ((h @ [ReadCall x (length p)]) @ reads (length p) (take j xs)) (xs ! j) (length p))) = None"
    by simp_all
  have "\<forall>j<length (x # xs). snd (snd (sink_Read io (h @ reads (length p) (take j (x # xs))) ((x # xs) ! j) (length p))) = None"
  proof (intro allI impI)
    fix j assume j: "j < length (x # xs)"
    show "snd (snd (sink_Read io (h @ reads (length p) (take j (x # xs))) ((x # xs) ! j) (length p))) = None"
    proof (cases j)
      case 0
      with rd r show ?thesis by (simp add: reads_def)
    next
      case (Suc k)
      with j ih(2) show ?thesis by (simp add: reads_def)
    qed
  qed
  with ih(1) rd r show ?case by simp
qed

lemma Close_loop_first_failure:
  "i < length ds \<Longrightarrow>
   (\<forall>j<i. sink_Close io (h @ closes (take j ds)) (ds ! j) = None) \<Longrightarrow>
   sink_Close io (h @ closes (take i ds)) (ds ! i) = Some e \<Longrightarrow>
   Close_loop io ds h = (Some e, h @ closes (take (Suc i) ds))"
proof (induction ds arbitrary: h i)
  case Nil
  then show ?case by simp
next
  case (Cons x xs)
  show ?case
  proof (cases i)
    case 0
    with Cons.prems(3) show ?thesis by (simp add: closes_def)
  next
    case (Suc k)
    from Cons.prems(2)[rule_format, of 0] Suc have c: "sink_Close io h x = None"
      by (simp add: closes_def)
    have rest: "\<forall>j<k. sink_Close io ((h @ [CloseCall x]) @ closes (take j xs)) (xs ! j) = None"
    proof (intro allI impI)
      fix j assume "j < k"
      with Cons.prems(2)[rule_format, of "Suc j"] Suc
      show "sink_Close io ((h @ [CloseCall x]) @ closes (take j xs)) (xs ! j) = None"
        by (simp add: closes_def)
    qed
    from Cons.prems(1) Suc have k: "k < length xs" by simp
    from Cons.prems(3) Suc
    have "sink_Close io ((h @ [CloseCall x]) @ closes (take k xs)) (xs ! k) = Some e"
      by (simp add: closes_def)
    from Cons.IH[OF k rest this] c Suc show ?thesis
      by (simp add: closes_def)
  qed
qed

lemma Close_loop_all_ok:
  "(\<forall>j<length ds. sink_Close io (h @ closes (take j ds)) (ds ! j) = None) \<Longrightarrow>
   Close_loop io ds h = (None, h @ closes ds)"
proof (induction ds arbitrary: h)
  case Nil
  then show ?case by (simp add: closes_def)
next
  case (Cons x xs)
  from Cons.prems[rule_format, of 0] have c: "sink_Close io h x = None"
    by (simp add: closes_def)
  have rest: "\<forall>j<length xs. sink_Close io ((h @ [CloseCall x]) @ closes (take j xs)) (xs ! j) = None"
  proof (intro allI impI)
    fix j assume "j < length xs"
    with Cons.prems[rule_format, of "Suc j"]
    show "sink_Close io ((h @ [CloseCall x]) @ closes (take j xs)) (xs ! j) = None"
      by (simp add: closes_def)
  qed
  from Cons.IH[OF rest] c show ?case
    by (simp add: closes_def)
qed

lemma read_data_Cons:
  "read_data io (x # xs) k h 0 = fst (sink_Read io h x k)"
  "read_data io (x # xs) k h (Suc j) = read_data io xs k (h @ [ReadCall x k]) j"
  by (simp_all add: read_data_def reads_def)

lemma upt_Suc_shift: "[0..<Suc m] = 0 # map Suc [0..<m]"
  by (simp add: upt_conv_Cons map_Suc_upt del: upt_Suc)

lemma Read_loop_length: "length (fst (snd (Read_loop io ds p h))) = length p"
proof (induction ds arbitrary: h p)
  case Nil
  then show ?case by simp
next
  case (Cons x xs)
  obtain d m r where rd: "sink_Read io h x (length p) = (d, m, r)"
    by (cases "sink_Read io h x (length p)")
  show ?case
  proof (cases r)
    case None
    with rd Cons.IH[of "fill p d" "h @ [ReadCall x (length p)]"] show ?thesis
      by (simp add: length_fill)
  next
    case (Some e)
    with rd show ?thesis by (simp add: length_fill)
  qed
qed

lemma Read_loop_buffer_first_failure:
  "i < length ds \<Longrightarrow>
   (\<forall>j<i. snd (snd (sink_Read io (h @ reads (length p) (take j ds)) (ds ! j) (length p))) = None) \<Longrightarrow>
   snd (sink_Read io (h @ reads (length p) (take i ds)) (ds ! i) (length p)) = (n, Some e) \<Longrightarrow>
   fst (snd (Read_loop io ds p h))
     = foldl fill p (map (read_data io ds (length p) h) [0..<Suc i])"
proof (induction ds arbitrary: h i p)
  case Nil
  then show ?case by simp
next
  case (Cons x xs)
  obtain d m r where rd: "sink_Read io h x (length p) = (d, m, r)"
    by (cases "sink_Read io h x (length p)")
  show ?case
  proof (cases i)
    case 0
    with Cons.prems(3) rd show ?thesis by (simp add: reads_def read_data_def)
  next
    case (Suc k)
    from Cons.prems(2)[rule_format, of 0] Suc rd have r: "r = None"
      by (simp add: reads_def)
    let ?p = "fill p d"
    have len: "length ?p = length p" by (rule length_fill)
    have rest: "\<forall>j<k. snd (snd (sink_Read io ((h @ [ReadCall x (length p)]) @ reads (length ?p) (take j xs)) (xs ! j) (length ?p))) = None"
    proof (intro allI impI)
      fix j assume "j < k"
      with Cons.prems(2)[rule_format, of "Suc j"] Suc len
      show "snd (snd (sink_Read io ((h @ [ReadCall x (length p)]) @ reads (length ?p) (take j xs)) (xs ! j) (length ?p))) = None"
        by (simp add: reads_def)
    qed
    from Cons.prems(1) Suc have k: "k < length xs" by simp
    from Cons.prems(3) Suc len
    have "snd (sink_Read io ((h @ [ReadCall x (length p)]) @ reads (length ?p) (take k xs)) (xs ! k) (length ?p)) = (n, Some e)"
      by (simp add: reads_def)
    from Cons.IH[OF k rest this] len
    have ih: "fst (snd (Read_loop io xs ?p (h @ [ReadCall x (length p)])))
        = foldl fill ?p (map (read_data io xs (length p) (h @ [ReadCall x (length p)])) [0..<Suc k])"
      by simp
    have "foldl fill p (map (read_data io (x # xs) (length p) h) [0..<Suc (Suc k)])
        = foldl fill ?p (map (read_data io xs (length p) (h @ [ReadCall x (length p)])) [0..<Suc k])"
      unfolding upt_Suc_shift[of "Suc k"]
      by (simp add: read_data_Cons rd comp_def del: upt_Suc)
    with ih rd r Suc show ?thesis by simp
  qed
qed

lemma Read_loop_buffer_all_ok:
  "(\<forall>j<length ds. snd (snd (sink_Read io (h @ reads (length p) (take j ds)) (ds ! j) (length p))) = None) \<Longrightarrow>
   fst (snd (Read_loop io ds p h))
     = foldl fill p (map (read_data io ds (length p) h) [0..<length ds])"
proof (induction ds arbitrary: h p)
  case Nil
  then show ?case by simp
next
  case (Cons x xs)
  obtain d m r where rd: "sink_Read io h x (length p) = (d, m, r)"
    by (cases "sink_Read io h x (length p)")
  from Cons.prems[rule_format, of 0] rd have r: "r = None"
    by (simp add: reads_def)
  let ?p = "fill p d"
  have len: "length ?p = length p" by (rule length_fill)
  have rest: "\<forall>j<length xs. snd (snd (sink_Read io ((h @ [ReadCall x (length p)]) @ reads (length ?p) (take j xs)) (xs ! j) (length ?p))) = None"
  proof (intro allI impI)
    fix j assume "j < length xs"
    with Cons.prems[rule_format, of "Suc j"] len
    show "snd (snd (sink_Read io ((h @ [ReadCall x (length p)]) @ reads (length ?p) (take j xs)) (xs ! j) (length ?p))) = None"
      by (simp add: reads_def)
  qed
  from Cons.IH[OF rest] len
  have ih: "fst (snd (Read_loop io xs ?p (h @ [ReadCall x (length p)])))
      = foldl fill ?p (map (read_data io xs (length p) (h @ [ReadCall x (length p)])) [0..<length xs])"
    by simp
  have "foldl fill p (map (read_data io (x # xs) (length p) h) [0..<length (x # xs)])
      = foldl fill ?p (map (read_data io xs (length p) (h @ [ReadCall x (length p)])) [0..<length xs])"
    unfolding length_Cons upt_Suc_shift[of "length xs"]
    by (simp add: read_data_Cons rd comp_def del: upt_Suc)
  with ih rd r show ?case by simp
qed

text \<open>The parameter byte of the character size command, by arithmetic.\<close>

lemma size_byte:
  "0 \<le> w \<Longrightarrow> w \<le> 7 \<Longrightarrow> 0 \<le> ht \<Longrightarrow> ht \<le> 7 \<Longrightarrow>
     push_bit 4 (word_of_int ht) OR word_of_int w = (word_of_int (16 * ht + w) :: byte)"
proof -
  assume a: "0 \<le> w" "w \<le> 7" "0 \<le> ht" "ht \<le> 7"
  then have w: "w = 0 \<or> w = 1 \<or> w = 2 \<or> w = 3 \<or> w = 4 \<or> w = 5 \<or> w = 6 \<or> w = 7"
    by arith
  from a have h: "ht = 0 \<or> ht = 1 \<or> ht = 2 \<or> ht = 3 \<or> ht = 4 \<or> ht = 5 \<or> ht = 6 \<or> ht = 7"
    by arith
  from w h show ?thesis by (elim disjE) simp_all
qed

section \<open>Properties of the fan-out sink\<close>

text \<open>
  C1. \<open>MultiPrinter.Write\<close> writes the given bytes to each underlying sink in list
  order, stops at the first sink whose write fails and returns what that sink
  returned, and makes no write on a sink later in the list. The history grows by
  exactly the writes on the printers up to and including the first one that fails
  (first conjunct), or on all of them when none fails (second). With the sinks
  \<open>[A, B]\<close>: a write that fails on \<open>A\<close> adds the one call on \<open>A\<close> and none on \<open>B\<close>
  (third); a write that fails on \<open>B\<close> after succeeding on \<open>A\<close> has made the call on
  \<open>A\<close> with the bytes (fourth).
\<close>

theorem MultiPrinter_Write_first_failure:
  "(\<forall>i n e. i < length (dst mp) \<and> (\<forall>j<i. write_ok io (dst mp) p h j)
        \<and> sink_Write io (h @ writes p (take i (dst mp))) (dst mp ! i) p = (n, Some e)
      \<longrightarrow> MultiPrinter_Write io mp p h = ((n, Some e), h @ writes p (take (Suc i) (dst mp))))
   \<and> ((\<forall>j<length (dst mp). write_ok io (dst mp) p h j)
      \<longrightarrow> MultiPrinter_Write io mp p h = ((0, None), h @ writes p (dst mp)))
   \<and> (\<forall>A B n e. dst mp = [A, B] \<and> sink_Write io h A p = (n, Some e)
      \<longrightarrow> MultiPrinter_Write io mp p h = ((n, Some e), h @ [WriteCall A p]))
   \<and> (\<forall>A B n e. dst mp = [A, B] \<and> snd (sink_Write io h A p) = None
        \<and> sink_Write io (h @ [WriteCall A p]) B p = (n, Some e)
      \<longrightarrow> MultiPrinter_Write io mp p h = ((n, Some e), h @ [WriteCall A p, WriteCall B p]))"
proof (intro conjI allI impI)
  fix i n e
  assume "i < length (dst mp) \<and> (\<forall>j<i. write_ok io (dst mp) p h j)
        \<and> sink_Write io (h @ writes p (take i (dst mp))) (dst mp ! i) p = (n, Some e)"
  then show "MultiPrinter_Write io mp p h = ((n, Some e), h @ writes p (take (Suc i) (dst mp)))"
    unfolding MultiPrinter_Write_def write_ok_def
    by (intro Write_loop_first_failure) simp_all
next
  assume "\<forall>j<length (dst mp). write_ok io (dst mp) p h j"
  then show "MultiPrinter_Write io mp p h = ((0, None), h @ writes p (dst mp))"
    unfolding MultiPrinter_Write_def write_ok_def by (rule Write_loop_all_ok)
next
  fix A B n e
  assume "dst mp = [A, B] \<and> sink_Write io h A p = (n, Some e)"
  then show "MultiPrinter_Write io mp p h = ((n, Some e), h @ [WriteCall A p])"
    by (simp add: MultiPrinter_Write_def)
next
  fix A B n e
  assume a: "dst mp = [A, B] \<and> snd (sink_Write io h A p) = None
        \<and> sink_Write io (h @ [WriteCall A p]) B p = (n, Some e)"
  then show "MultiPrinter_Write io mp p h = ((n, Some e), h @ [WriteCall A p, WriteCall B p])"
    by (cases "sink_Write io h A p") (simp add: MultiPrinter_Write_def)
qed

theorem MultiPrinter_Write_first_failure_witness:
  "MultiPrinter_Write (doubles [0]) (NewMultiPrinter [0, 1]) [0x1B, 0x40] []
     = ((0, Some ''write failed''), [WriteCall 0 [0x1B, 0x40]])
   \<and> MultiPrinter_Write (doubles [1]) (NewMultiPrinter [0, 1]) [0x1B, 0x40] []
     = ((0, Some ''write failed''), [WriteCall 0 [0x1B, 0x40], WriteCall 1 [0x1B, 0x40]])
   \<and> received 0 (snd (MultiPrinter_Write (doubles [1]) (NewMultiPrinter [0, 1]) [0x1B, 0x40] []))
     = [0x1B, 0x40]
   \<and> MultiPrinter_Write (doubles []) (NewMultiPrinter [0, 1]) [0x1B, 0x40] []
     = ((0, None), [WriteCall 0 [0x1B, 0x40], WriteCall 1 [0x1B, 0x40]])"
proof -
  let ?p = "[0x1B, 0x40] :: byte list"
  let ?mp = "NewMultiPrinter [0, 1 :: nat]"
  have a: "MultiPrinter_Write (doubles [0]) ?mp ?p [] = ((0, Some ''write failed''), [WriteCall 0 ?p])"
    using MultiPrinter_Write_first_failure
      [where mp = ?mp and io = "doubles [0]" and p = ?p and h = "[]",
        THEN conjunct1, rule_format, of 0 0 "''write failed''"]
    by (simp add: doubles_def NewMultiPrinter_def writes_def write_ok_def)
  have b: "MultiPrinter_Write (doubles [1]) ?mp ?p []
      = ((0, Some ''write failed''), [WriteCall 0 ?p, WriteCall 1 ?p])"
    using MultiPrinter_Write_first_failure
      [where mp = ?mp and io = "doubles [1]" and p = ?p and h = "[]",
        THEN conjunct1, rule_format, of 1 0 "''write failed''"]
    by (simp add: doubles_def NewMultiPrinter_def writes_def write_ok_def)
  have c: "MultiPrinter_Write (doubles []) ?mp ?p [] = ((0, None), [WriteCall 0 ?p, WriteCall 1 ?p])"
    using MultiPrinter_Write_first_failure
      [where mp = ?mp and io = "doubles []" and p = ?p and h = "[]",
        THEN conjunct2, THEN conjunct1]
    by (simp add: doubles_def NewMultiPrinter_def writes_def write_ok_def)
  from a b c show ?thesis by simp
qed

text \<open>
  C2, as the specification states it, fails on the code: \<open>MultiPrinter.Close\<close> returns
  at the first error, so with the sinks \<open>[0, 1]\<close> and a failing close of sink \<open>0\<close>,
  sink \<open>1\<close> receives no close call.
\<close>

theorem MultiPrinter_Close_continues_counterexample:
  "MultiPrinter_Close (doubles [0]) (NewMultiPrinter [0, 1]) [] = (Some ''close failed'', [CloseCall 0])
   \<and> CloseCall 1 \<notin> set (snd (MultiPrinter_Close (doubles [0]) (NewMultiPrinter [0, 1]) []))"
  by (simp add: MultiPrinter_Close_def NewMultiPrinter_def doubles_def)

text \<open>
  C2, amended. \<open>MultiPrinter.Close\<close> closes the sinks in list order, stops at the first
  sink whose close fails and returns that error; the sinks later in the list receive
  no close call. When no close fails, every sink is closed, in order, and the result
  is \<^verbatim>\<open>nil\<close>.
\<close>

theorem MultiPrinter_Close_first_failure:
  "(\<forall>i e. i < length (dst mp) \<and> (\<forall>j<i. close_ok io (dst mp) h j)
        \<and> sink_Close io (h @ closes (take i (dst mp))) (dst mp ! i) = Some e
      \<longrightarrow> MultiPrinter_Close io mp h = (Some e, h @ closes (take (Suc i) (dst mp))))
   \<and> ((\<forall>j<length (dst mp). close_ok io (dst mp) h j)
      \<longrightarrow> MultiPrinter_Close io mp h = (None, h @ closes (dst mp)))"
proof (intro conjI allI impI)
  fix i e
  assume "i < length (dst mp) \<and> (\<forall>j<i. close_ok io (dst mp) h j)
        \<and> sink_Close io (h @ closes (take i (dst mp))) (dst mp ! i) = Some e"
  then show "MultiPrinter_Close io mp h = (Some e, h @ closes (take (Suc i) (dst mp)))"
    unfolding MultiPrinter_Close_def close_ok_def
    by (intro Close_loop_first_failure) simp_all
next
  assume "\<forall>j<length (dst mp). close_ok io (dst mp) h j"
  then show "MultiPrinter_Close io mp h = (None, h @ closes (dst mp))"
    unfolding MultiPrinter_Close_def close_ok_def by (rule Close_loop_all_ok)
qed

theorem MultiPrinter_Close_first_failure_witness:
  "MultiPrinter_Close (doubles [1]) (NewMultiPrinter [0, 1, 2]) []
     = (Some ''close failed'', [CloseCall 0, CloseCall 1])
   \<and> MultiPrinter_Close (doubles []) (NewMultiPrinter [0, 1, 2]) []
     = (None, [CloseCall 0, CloseCall 1, CloseCall 2])"
proof -
  let ?mp = "NewMultiPrinter [0, 1, 2 :: nat]"
  have a: "MultiPrinter_Close (doubles [1]) ?mp [] = (Some ''close failed'', [CloseCall 0, CloseCall 1])"
    using MultiPrinter_Close_first_failure
      [where mp = ?mp and io = "doubles [1]" and h = "[]",
        THEN conjunct1, rule_format, of 1 "''close failed''"]
    by (simp add: doubles_def NewMultiPrinter_def closes_def close_ok_def)
  have b: "MultiPrinter_Close (doubles []) ?mp [] = (None, [CloseCall 0, CloseCall 1, CloseCall 2])"
    using MultiPrinter_Close_first_failure
      [where mp = ?mp and io = "doubles []" and h = "[]", THEN conjunct2]
    by (simp add: doubles_def NewMultiPrinter_def closes_def close_ok_def)
  from a b show ?thesis by simp
qed

text \<open>
  C8, as the specification states it, fails on the code: \<open>MultiPrinter.Read\<close> hands
  the caller's buffer to every sink, so the data read is not discarded. With two
  healthy sinks the call returns \<open>(0, nil)\<close> and the buffer holds the bytes the
  sinks stored; with a second sink that stores one byte and fails, the call returns
  that read's count 1 with the error, and the byte is in the buffer.
\<close>

theorem MultiPrinter_Read_discards_counterexample:
  "MultiPrinter_Read (doubles []) (NewMultiPrinter [0, 1]) [0, 0] []
     = ((0, None), [0x2A, 0x2A], [ReadCall 0 2, ReadCall 1 2])
   \<and> fst (snd (MultiPrinter_Read (doubles []) (NewMultiPrinter [0, 1]) [0, 0] [])) \<noteq> [0, 0]
   \<and> MultiPrinter_Read (eof_doubles [1]) (NewMultiPrinter [0, 1]) [0, 0] []
     = ((1, Some ''EOF''), [0x08, 0x2A], [ReadCall 0 2, ReadCall 1 2])"
  by (simp add: MultiPrinter_Read_def NewMultiPrinter_def doubles_def eof_doubles_def fill_def)

text \<open>
  C8, amended. \<open>MultiPrinter.Read\<close> reads from each underlying sink in list order
  into the caller's buffer and stops at the first sink whose read fails, returning
  the count and the error of that read (first conjunct). It returns a \<^verbatim>\<open>nil\<close>
  error only if every underlying read succeeds (third), and then the count is 0
  whatever the sinks reported (second): only the counts of the successful reads are
  dropped. The data is kept: the buffer the caller gets back is its own buffer with
  the bytes of every read made stored over its front, one read after the other, the
  failing read included, and it keeps its length (fourth).
\<close>

theorem MultiPrinter_Read_first_failure:
  "(\<forall>i n e. i < length (dst mp) \<and> (\<forall>j<i. read_ok io (dst mp) (length p) h j)
        \<and> snd (sink_Read io (h @ reads (length p) (take i (dst mp))) (dst mp ! i) (length p))
            = (n, Some e)
      \<longrightarrow> fst (MultiPrinter_Read io mp p h) = (n, Some e)
        \<and> fst (snd (MultiPrinter_Read io mp p h))
            = foldl fill p (map (read_data io (dst mp) (length p) h) [0..<Suc i])
        \<and> snd (snd (MultiPrinter_Read io mp p h)) = h @ reads (length p) (take (Suc i) (dst mp)))
   \<and> ((\<forall>j<length (dst mp). read_ok io (dst mp) (length p) h j)
      \<longrightarrow> fst (MultiPrinter_Read io mp p h) = (0, None)
        \<and> fst (snd (MultiPrinter_Read io mp p h))
            = foldl fill p (map (read_data io (dst mp) (length p) h) [0..<length (dst mp)])
        \<and> snd (snd (MultiPrinter_Read io mp p h)) = h @ reads (length p) (dst mp))
   \<and> (snd (fst (MultiPrinter_Read io mp p h)) = None
      \<longrightarrow> fst (fst (MultiPrinter_Read io mp p h)) = 0
        \<and> (\<forall>j<length (dst mp). read_ok io (dst mp) (length p) h j))
   \<and> length (fst (snd (MultiPrinter_Read io mp p h))) = length p"
proof (intro conjI allI impI)
  fix i n e
  assume a: "i < length (dst mp) \<and> (\<forall>j<i. read_ok io (dst mp) (length p) h j)
        \<and> snd (sink_Read io (h @ reads (length p) (take i (dst mp))) (dst mp ! i) (length p))
            = (n, Some e)"
  then have "fst (Read_loop io (dst mp) p h) = (n, Some e) \<and>
      snd (snd (Read_loop io (dst mp) p h)) = h @ reads (length p) (take (Suc i) (dst mp))"
    unfolding read_ok_def by (intro Read_loop_first_failure) simp_all
  then show "fst (MultiPrinter_Read io mp p h) = (n, Some e)"
    and "snd (snd (MultiPrinter_Read io mp p h)) = h @ reads (length p) (take (Suc i) (dst mp))"
    by (simp_all add: MultiPrinter_Read_def)
  from a have "fst (snd (Read_loop io (dst mp) p h))
      = foldl fill p (map (read_data io (dst mp) (length p) h) [0..<Suc i])"
    unfolding read_ok_def by (intro Read_loop_buffer_first_failure) simp_all
  then show "fst (snd (MultiPrinter_Read io mp p h))
      = foldl fill p (map (read_data io (dst mp) (length p) h) [0..<Suc i])"
    by (simp add: MultiPrinter_Read_def)
next
  assume a: "\<forall>j<length (dst mp). read_ok io (dst mp) (length p) h j"
  then have "fst (Read_loop io (dst mp) p h) = (0, None) \<and>
      snd (snd (Read_loop io (dst mp) p h)) = h @ reads (length p) (dst mp)"
    unfolding read_ok_def by (rule Read_loop_all_ok)
  then show "fst (MultiPrinter_Read io mp p h) = (0, None)"
    and "snd (snd (MultiPrinter_Read io mp p h)) = h @ reads (length p) (dst mp)"
    by (simp_all add: MultiPrinter_Read_def)
  from a have "fst (snd (Read_loop io (dst mp) p h))
      = foldl fill p (map (read_data io (dst mp) (length p) h) [0..<length (dst mp)])"
    unfolding read_ok_def by (rule Read_loop_buffer_all_ok)
  then show "fst (snd (MultiPrinter_Read io mp p h))
      = foldl fill p (map (read_data io (dst mp) (length p) h) [0..<length (dst mp)])"
    by (simp add: MultiPrinter_Read_def)
next
  assume "snd (fst (MultiPrinter_Read io mp p h)) = None"
  then have ok: "snd (fst (Read_loop io (dst mp) p h)) = None"
    by (simp add: MultiPrinter_Read_def)
  from Read_loop_ok_only_if[OF ok]
  show "fst (fst (MultiPrinter_Read io mp p h)) = 0"
    by (simp add: MultiPrinter_Read_def)
  fix j assume "j < length (dst mp)"
  with Read_loop_ok_only_if[OF ok]
  show "read_ok io (dst mp) (length p) h j"
    by (simp add: read_ok_def)
next
  show "length (fst (snd (MultiPrinter_Read io mp p h))) = length p"
    unfolding MultiPrinter_Read_def by (rule Read_loop_length)
qed

theorem MultiPrinter_Read_first_failure_witness:
  "fst (MultiPrinter_Read (eof_doubles [1]) (NewMultiPrinter [0, 1, 2]) [0, 0] [])
     = (1, Some ''EOF'')
   \<and> fst (snd (MultiPrinter_Read (eof_doubles [1]) (NewMultiPrinter [0, 1, 2]) [0, 0] []))
     = [0x08, 0x2A]
   \<and> snd (snd (MultiPrinter_Read (eof_doubles [1]) (NewMultiPrinter [0, 1, 2]) [0, 0] []))
     = [ReadCall 0 2, ReadCall 1 2]
   \<and> fst (MultiPrinter_Read (doubles []) (NewMultiPrinter [0, 1, 2]) [0, 0] []) = (0, None)
   \<and> fst (snd (MultiPrinter_Read (doubles []) (NewMultiPrinter [0, 1, 2]) [0, 0] []))
     = [0x2A, 0x2A]
   \<and> snd (snd (MultiPrinter_Read (doubles []) (NewMultiPrinter [0, 1, 2]) [0, 0] []))
     = [ReadCall 0 2, ReadCall 1 2, ReadCall 2 2]
   \<and> read_ok (doubles []) [0, 1, 2] 2 [] 2"
proof -
  let ?p = "[0, 0] :: byte list"
  let ?mp = "NewMultiPrinter [0, 1, 2 :: nat]"
  note t = MultiPrinter_Read_first_failure[where mp = ?mp and p = ?p and h = "[]"]
  have a: "fst (MultiPrinter_Read (eof_doubles [1]) ?mp ?p []) = (1, Some ''EOF'')
      \<and> fst (snd (MultiPrinter_Read (eof_doubles [1]) ?mp ?p [])) = [0x08, 0x2A]
      \<and> snd (snd (MultiPrinter_Read (eof_doubles [1]) ?mp ?p [])) = [ReadCall 0 2, ReadCall 1 2]"
    using t[where io = "eof_doubles [1]", THEN conjunct1, rule_format, of 1 1 "''EOF''"]
    by (simp add: eof_doubles_def doubles_def NewMultiPrinter_def reads_def read_ok_def
        read_data_def fill_def)
  have b: "fst (MultiPrinter_Read (doubles []) ?mp ?p []) = (0, None)
      \<and> fst (snd (MultiPrinter_Read (doubles []) ?mp ?p [])) = [0x2A, 0x2A]
      \<and> snd (snd (MultiPrinter_Read (doubles []) ?mp ?p [])) = [ReadCall 0 2, ReadCall 1 2, ReadCall 2 2]"
    using t[where io = "doubles []", THEN conjunct2, THEN conjunct1]
    by (simp add: doubles_def NewMultiPrinter_def reads_def read_ok_def read_data_def fill_def)
  from b have "snd (fst (MultiPrinter_Read (doubles []) ?mp ?p [])) = None" by simp
  from t[where io = "doubles []", THEN conjunct2, THEN conjunct2, THEN conjunct1, rule_format, OF this]
  have c0: "\<forall>j<length (dst ?mp). read_ok (doubles []) (dst ?mp) (length ?p) [] j" by simp
  have "2 < length (dst ?mp)" by (simp add: NewMultiPrinter_def)
  with c0 have "read_ok (doubles []) (dst ?mp) (length ?p) [] 2" by blast
  then have c: "read_ok (doubles []) [0, 1, 2] 2 [] 2"
    by (simp add: NewMultiPrinter_def numeral_2_eq_2)
  from a b c show ?thesis by simp
qed

text \<open>
  C9. When every underlying call succeeds, \<open>MultiPrinter.Write\<close> returns the count 0,
  not \<open>len(p)\<close>, and a \<^verbatim>\<open>nil\<close> error, and so does \<open>MultiPrinter.Read\<close>, whatever
  counts the sinks returned and whatever they stored in the caller's buffer: a
  fan-out call that returns a \<^verbatim>\<open>nil\<close> error always returns the count 0.
\<close>

theorem MultiPrinter_success_count_zero:
  "((\<forall>j<length (dst mp). write_ok io (dst mp) p h j)
      \<longrightarrow> fst (MultiPrinter_Write io mp p h) = (0, None))
   \<and> ((\<forall>j<length (dst mp). read_ok io (dst mp) (length p) h j)
      \<longrightarrow> fst (MultiPrinter_Read io mp p h) = (0, None))
   \<and> (snd (fst (MultiPrinter_Write io mp p h)) = None
      \<longrightarrow> fst (fst (MultiPrinter_Write io mp p h)) = 0)
   \<and> (snd (fst (MultiPrinter_Read io mp p h)) = None
      \<longrightarrow> fst (fst (MultiPrinter_Read io mp p h)) = 0)"
proof (intro conjI impI)
  assume "\<forall>j<length (dst mp). write_ok io (dst mp) p h j"
  then have "Write_loop io (dst mp) p h = ((0, None), h @ writes p (dst mp))"
    unfolding write_ok_def by (rule Write_loop_all_ok)
  then show "fst (MultiPrinter_Write io mp p h) = (0, None)"
    by (simp add: MultiPrinter_Write_def)
next
  assume "\<forall>j<length (dst mp). read_ok io (dst mp) (length p) h j"
  then have "fst (Read_loop io (dst mp) p h) = (0, None) \<and>
      snd (snd (Read_loop io (dst mp) p h)) = h @ reads (length p) (dst mp)"
    unfolding read_ok_def by (rule Read_loop_all_ok)
  then show "fst (MultiPrinter_Read io mp p h) = (0, None)"
    by (simp add: MultiPrinter_Read_def)
next
  assume "snd (fst (MultiPrinter_Write io mp p h)) = None"
  then show "fst (fst (MultiPrinter_Write io mp p h)) = 0"
    unfolding MultiPrinter_Write_def by (rule Write_loop_count)
next
  assume "snd (fst (MultiPrinter_Read io mp p h)) = None"
  then have "snd (fst (Read_loop io (dst mp) p h)) = None"
    by (simp add: MultiPrinter_Read_def)
  from Read_loop_ok_only_if[OF this]
  show "fst (fst (MultiPrinter_Read io mp p h)) = 0"
    by (simp add: MultiPrinter_Read_def)
qed

theorem MultiPrinter_success_count_zero_witness:
  "sink_Write (doubles []) [] 0 [0x41, 0x42, 0x43] = (3, None)
   \<and> fst (MultiPrinter_Write (doubles []) (NewMultiPrinter [0, 1]) [0x41, 0x42, 0x43] []) = (0, None)
   \<and> sink_Read (doubles []) [] 0 2 = ([0x2A, 0x2A], 2, None)
   \<and> fst (MultiPrinter_Read (doubles []) (NewMultiPrinter [0, 1]) [0, 0] []) = (0, None)
   \<and> fst (snd (MultiPrinter_Read (doubles []) (NewMultiPrinter [0, 1]) [0, 0] [])) = [0x2A, 0x2A]"
proof -
  let ?mp = "NewMultiPrinter [0, 1 :: nat]"
  have a: "fst (MultiPrinter_Write (doubles []) ?mp [0x41, 0x42, 0x43] []) = (0, None)"
    using MultiPrinter_success_count_zero
      [where mp = ?mp and io = "doubles []" and p = "[0x41, 0x42, 0x43]" and h = "[]",
        THEN conjunct1]
    by (simp add: doubles_def NewMultiPrinter_def writes_def write_ok_def)
  have b: "fst (MultiPrinter_Read (doubles []) ?mp [0, 0] []) = (0, None)"
    using MultiPrinter_success_count_zero
      [where mp = ?mp and io = "doubles []" and p = "[0, 0]" and h = "[]",
        THEN conjunct2, THEN conjunct1]
    by (simp add: doubles_def NewMultiPrinter_def reads_def read_ok_def)
  have c: "sink_Write (doubles []) [] 0 [0x41, 0x42, 0x43] = (3, None)"
    "sink_Read (doubles []) [] 0 2 = ([0x2A, 0x2A], 2, None)"
    by (simp_all add: doubles_def numeral_2_eq_2)
  have d: "fst (snd (MultiPrinter_Read (doubles []) ?mp [0, 0] [])) = [0x2A, 0x2A]"
    by (simp add: MultiPrinter_Read_def NewMultiPrinter_def doubles_def fill_def)
  from a b c d show ?thesis by simp
qed

text \<open>
  C10. \<open>NewMultiPrinter\<close> checks nothing: it stores the list it is given, the empty
  list too, and on the fan-out sink of no sinks \<open>Write\<close>, \<open>Read\<close> and \<open>Close\<close> return
  success (count 0, \<^verbatim>\<open>nil\<close> error) and make no call: the history and the buffer
  are unchanged.
\<close>

theorem NewMultiPrinter_empty:
  "dst (NewMultiPrinter []) = []
   \<and> MultiPrinter_Write io (NewMultiPrinter []) p h = ((0, None), h)
   \<and> MultiPrinter_Read io (NewMultiPrinter []) p h = ((0, None), p, h)
   \<and> MultiPrinter_Close io (NewMultiPrinter []) h = (None, h)"
  by (simp add: NewMultiPrinter_def MultiPrinter_Write_def MultiPrinter_Read_def
      MultiPrinter_Close_def)

section \<open>Properties of the printer session\<close>

text \<open>
  C3. On an open session whose sink accepts the write, \<open>HT\<close>, \<open>LF\<close> and \<open>CR\<close> make
  the sink receive exactly the one byte \<open>0x09\<close>, \<open>0x0A\<close> and \<open>0x0D\<close>, in one write
  call, and return no error; \<open>Initialize\<close> writes exactly the two bytes
  \<open>0x1B, 0x40\<close>.
\<close>

theorem single_byte_commands:
  "(\<not> closed s \<and> accepts io h (sink s) [0x09] \<longrightarrow>
      Printer_HT io s h = (None, h @ [WriteCall (sink s) [0x09]])
      \<and> received (sink s) (snd (Printer_HT io s h)) = received (sink s) h @ [0x09])
   \<and> (\<not> closed s \<and> accepts io h (sink s) [0x0A] \<longrightarrow>
      Printer_LF io s h = (None, h @ [WriteCall (sink s) [0x0A]])
      \<and> received (sink s) (snd (Printer_LF io s h)) = received (sink s) h @ [0x0A])
   \<and> (\<not> closed s \<and> accepts io h (sink s) [0x0D] \<longrightarrow>
      Printer_CR io s h = (None, h @ [WriteCall (sink s) [0x0D]])
      \<and> received (sink s) (snd (Printer_CR io s h)) = received (sink s) h @ [0x0D])
   \<and> (\<not> closed s \<and> accepts io h (sink s) [0x1B, 0x40] \<longrightarrow>
      Printer_Initialize io s h = (None, h @ [WriteCall (sink s) [0x1B, 0x40]])
      \<and> received (sink s) (snd (Printer_Initialize io s h)) = received (sink s) h @ [0x1B, 0x40])"
  by (simp add: Printer_HT_def Printer_LF_def Printer_CR_def Printer_Initialize_def
      Printer_command_def encode_HT_def encode_LF_def encode_CR_def encode_Initialize_def
      accepts_def received_append)

theorem single_byte_commands_witness:
  "received 0 (snd (Printer_HT (doubles []) (NewPrinter 0) [])) = [0x09]
   \<and> fst (Printer_HT (doubles []) (NewPrinter 0) []) = None
   \<and> received 0 (snd (Printer_LF (doubles []) (NewPrinter 0) [])) = [0x0A]
   \<and> fst (Printer_LF (doubles []) (NewPrinter 0) []) = None
   \<and> received 0 (snd (Printer_CR (doubles []) (NewPrinter 0) [])) = [0x0D]
   \<and> fst (Printer_CR (doubles []) (NewPrinter 0) []) = None
   \<and> received 0 (snd (Printer_Initialize (doubles []) (NewPrinter 0) [])) = [0x1B, 0x40]
   \<and> fst (Printer_Initialize (doubles []) (NewPrinter 0) []) = None"
proof -
  have ok: "\<not> closed (NewPrinter (0::nat))" "sink (NewPrinter (0::nat)) = 0"
    "\<And>bs. accepts (doubles []) [] 0 bs"
    by (simp_all add: NewPrinter_def accepts_def doubles_def)
  note t = single_byte_commands[where s = "NewPrinter (0::nat)" and io = "doubles []" and h = "[]"]
  from t ok show ?thesis by simp
qed

text \<open>
  C4. On an open session whose sink accepts the two writes, \<open>Println s\<close> makes the
  sink receive exactly the bytes of \<open>s\<close> followed by exactly one \<open>0x0A\<close>, no other
  call is made, and no error is returned.
\<close>

theorem Println_bytes:
  "\<not> closed s \<and> accepts io h (sink s) str
      \<and> accepts io (h @ [WriteCall (sink s) str]) (sink s) [0x0A] \<longrightarrow>
    Printer_Println io s str h
      = (None, h @ [WriteCall (sink s) str, WriteCall (sink s) [0x0A]])
    \<and> received (sink s) (snd (Printer_Println io s str h))
      = received (sink s) h @ str @ [0x0A]"
  by (simp add: Printer_Println_def Printer_Print_def Printer_LF_def Printer_command_def
      encode_Raw_def encode_LF_def accepts_def received_append)

theorem Println_bytes_witness:
  "Printer_Println (doubles []) (NewPrinter 0) [0x54, 0x65, 0x73, 0x74] []
     = (None, [WriteCall 0 [0x54, 0x65, 0x73, 0x74], WriteCall 0 [0x0A]])
   \<and> received 0 (snd (Printer_Println (doubles []) (NewPrinter 0) [0x54, 0x65, 0x73, 0x74] []))
     = [0x54, 0x65, 0x73, 0x74, 0x0A]"
proof -
  have ok: "\<not> closed (NewPrinter (0::nat))" "sink (NewPrinter (0::nat)) = 0"
    "\<And>k bs. accepts (doubles []) k 0 bs"
    by (simp_all add: NewPrinter_def accepts_def doubles_def)
  note t = Println_bytes[where s = "NewPrinter (0::nat)" and io = "doubles []" and h = "[]"
      and str = "[0x54, 0x65, 0x73, 0x74]"]
  from t ok show ?thesis by simp
qed

text \<open>
  C5. On an open session whose sink accepts the write, \<open>WriteRaw b\<close> makes the sink
  receive exactly \<open>b\<close>, unchanged, in one write call, and returns no error.
\<close>

theorem WriteRaw_identity:
  "\<not> closed s \<and> accepts io h (sink s) b \<longrightarrow>
    Printer_WriteRaw io s b h = (None, h @ [WriteCall (sink s) b])
    \<and> received (sink s) (snd (Printer_WriteRaw io s b h)) = received (sink s) h @ b"
  by (simp add: Printer_WriteRaw_def Printer_command_def encode_Raw_def accepts_def
      received_append)

theorem WriteRaw_identity_witness:
  "Printer_WriteRaw (doubles []) (NewPrinter 0) [0x54, 0x00, 0xFF, 0x0A] []
     = (None, [WriteCall 0 [0x54, 0x00, 0xFF, 0x0A]])
   \<and> received 0 (snd (Printer_WriteRaw (doubles []) (NewPrinter 0) [0x54, 0x00, 0xFF, 0x0A] []))
     = [0x54, 0x00, 0xFF, 0x0A]"
proof -
  have ok: "\<not> closed (NewPrinter (0::nat))" "sink (NewPrinter (0::nat)) = 0"
    "\<And>bs. accepts (doubles []) [] 0 bs"
    by (simp_all add: NewPrinter_def accepts_def doubles_def)
  note t = WriteRaw_identity[where s = "NewPrinter (0::nat)" and io = "doubles []" and h = "[]"
      and b = "[0x54, 0x00, 0xFF, 0x0A]"]
  from t ok show ?thesis by simp
qed

text \<open>
  C6. On an open session, \<open>SetCharacterSize\<close> accepts every width and height from 0
  to 7: it makes one write, of the three bytes \<open>GS '!' n\<close> with \<open>n = 16 * height +
  width\<close>, and its result is that write's, never \<open>InvalidParameter\<close>. Any other
  width or height (8 and -1 among them) is rejected with \<open>InvalidParameter\<close>, and no
  call reaches the sink.
\<close>

theorem SetCharacterSize_range:
  "(\<not> closed s \<and> 0 \<le> width \<and> width \<le> 7 \<and> 0 \<le> height \<and> height \<le> 7 \<longrightarrow>
      snd (Printer_SetCharacterSize io s width height h)
        = h @ [WriteCall (sink s) [0x1D, 0x21, word_of_int (16 * height + width)]]
      \<and> fst (Printer_SetCharacterSize io s width height h) \<noteq> Some InvalidParameter
      \<and> (accepts io h (sink s) [0x1D, 0x21, word_of_int (16 * height + width)]
          \<longrightarrow> fst (Printer_SetCharacterSize io s width height h) = None))
   \<and> (\<not> closed s \<and> (width < 0 \<or> 7 < width \<or> height < 0 \<or> 7 < height) \<longrightarrow>
      Printer_SetCharacterSize io s width height h = (Some InvalidParameter, h))"
proof (intro conjI impI)
  assume a: "\<not> closed s \<and> 0 \<le> width \<and> width \<le> 7 \<and> 0 \<le> height \<and> height \<le> 7"
  then have b: "push_bit 4 (word_of_int height) OR word_of_int width
      = (word_of_int (16 * height + width) :: byte)"
    by (intro size_byte) simp_all
  from a have r: "Printer_SetCharacterSize io s width height h
      = (map_option (\<lambda>e. IOError (Some e))
           (snd (sink_Write io h (sink s) [0x1D, 0x21, word_of_int (16 * height + width)])),
         h @ [WriteCall (sink s) [0x1D, 0x21, word_of_int (16 * height + width)]])"
    unfolding Printer_SetCharacterSize_def Printer_command_def encode_SetCharacterSize_def b
    by simp
  from r show "snd (Printer_SetCharacterSize io s width height h)
        = h @ [WriteCall (sink s) [0x1D, 0x21, word_of_int (16 * height + width)]]"
    by simp
  from r show "fst (Printer_SetCharacterSize io s width height h) \<noteq> Some InvalidParameter"
    by (cases "snd (sink_Write io h (sink s) [0x1D, 0x21, word_of_int (16 * height + width)])")
      simp_all
  assume "accepts io h (sink s) [0x1D, 0x21, word_of_int (16 * height + width)]"
  with r show "fst (Printer_SetCharacterSize io s width height h) = None"
    by (simp add: accepts_def)
next
  assume "\<not> closed s \<and> (width < 0 \<or> 7 < width \<or> height < 0 \<or> 7 < height)"
  then show "Printer_SetCharacterSize io s width height h = (Some InvalidParameter, h)"
    by (auto simp: Printer_SetCharacterSize_def Printer_command_def encode_SetCharacterSize_def)
qed

theorem SetCharacterSize_range_witness:
  "Printer_SetCharacterSize (doubles []) (NewPrinter 0) 0 0 [] = (None, [WriteCall 0 [0x1D, 0x21, 0x00]])
   \<and> Printer_SetCharacterSize (doubles []) (NewPrinter 0) 7 7 [] = (None, [WriteCall 0 [0x1D, 0x21, 0x77]])
   \<and> Printer_SetCharacterSize (doubles []) (NewPrinter 0) 8 0 [] = (Some InvalidParameter, [])
   \<and> Printer_SetCharacterSize (doubles []) (NewPrinter 0) (- 1) 0 [] = (Some InvalidParameter, [])
   \<and> Printer_SetCharacterSize (doubles []) (NewPrinter 0) 0 8 [] = (Some InvalidParameter, [])
   \<and> Printer_SetCharacterSize (doubles []) (NewPrinter 0) 0 (- 1) [] = (Some InvalidParameter, [])"
proof -
  have ok: "\<not> closed (NewPrinter (0::nat))" "sink (NewPrinter (0::nat)) = 0"
    "\<And>bs. accepts (doubles []) [] 0 bs"
    by (simp_all add: NewPrinter_def accepts_def doubles_def)
  note t = SetCharacterSize_range[where s = "NewPrinter (0::nat)" and io = "doubles []" and h = "[]"]
  have a: "Printer_SetCharacterSize (doubles []) (NewPrinter 0) 0 0 [] = (None, [WriteCall 0 [0x1D, 0x21, 0x00]])"
    using t[where width = 0 and height = 0] ok by (simp add: prod_eq_iff)
  have b: "Printer_SetCharacterSize (doubles []) (NewPrinter 0) 7 7 [] = (None, [WriteCall 0 [0x1D, 0x21, 0x77]])"
    using t[where width = 7 and height = 7] ok by (simp add: prod_eq_iff)
  have c: "Printer_SetCharacterSize (doubles []) (NewPrinter 0) 8 0 [] = (Some InvalidParameter, [])"
    using t[where width = 8 and height = 0] ok by simp
  have d: "Printer_SetCharacterSize (doubles []) (NewPrinter 0) (- 1) 0 [] = (Some InvalidParameter, [])"
    using t[where width = "- 1" and height = 0] ok by simp
  have e: "Printer_SetCharacterSize (doubles []) (NewPrinter 0) 0 8 [] = (Some InvalidParameter, [])"
    using t[where width = 0 and height = 8] ok by simp
  have f: "Printer_SetCharacterSize (doubles []) (NewPrinter 0) 0 (- 1) [] = (Some InvalidParameter, [])"
    using t[where width = 0 and height = "- 1"] ok by simp
  from a b c d e f show ?thesis by simp
qed

text \<open>
  C7. Closing a session leaves it closed. On a closed session, closing again and
  every other method fail with \<open>ClosedSession\<close> and make no call on the sink: the
  history is unchanged. The methods are \<open>Close\<close>, every method that is an encoder
  followed by the one write (whatever the encoder returns), \<open>HT\<close>, \<open>LF\<close>, \<open>CR\<close>,
  \<open>Initialize\<close>, \<open>SetCharacterSize\<close>, \<open>WriteRaw\<close> and \<open>Print\<close> among them, the
  composite \<open>Println\<close>, and the status read.
\<close>

theorem closed_session:
  "closed (fst (snd (Printer_Close io s0 h0)))
   \<and> (closed s \<longrightarrow>
        Printer_Close io s h = (Some ClosedSession, s, h)
      \<and> (\<forall>enc. Printer_command io s enc h = (Some ClosedSession, h))
      \<and> Printer_HT io s h = (Some ClosedSession, h)
      \<and> Printer_LF io s h = (Some ClosedSession, h)
      \<and> Printer_CR io s h = (Some ClosedSession, h)
      \<and> Printer_Initialize io s h = (Some ClosedSession, h)
      \<and> Printer_SetCharacterSize io s width height h = (Some ClosedSession, h)
      \<and> Printer_WriteRaw io s b h = (Some ClosedSession, h)
      \<and> Printer_Print io s b h = (Some ClosedSession, h)
      \<and> Printer_Println io s b h = (Some ClosedSession, h)
      \<and> Printer_TransmitErrorStatus io query s h = (Inl ClosedSession, h))"
  by (simp add: Printer_Close_def Printer_command_def Printer_HT_def Printer_LF_def
      Printer_CR_def Printer_Initialize_def Printer_SetCharacterSize_def Printer_WriteRaw_def
      Printer_Print_def Printer_Println_def Printer_TransmitErrorStatus_def)

theorem closed_session_witness:
  "Printer_Close (doubles []) (NewPrinter 0) [] = (None, \<lparr>sink = 0, closed = True\<rparr>, [CloseCall 0])
   \<and> Printer_Close (doubles []) \<lparr>sink = 0, closed = True\<rparr> [CloseCall 0]
       = (Some ClosedSession, \<lparr>sink = 0, closed = True\<rparr>, [CloseCall 0])
   \<and> Printer_LF (doubles []) \<lparr>sink = 0, closed = True\<rparr> [CloseCall 0]
       = (Some ClosedSession, [CloseCall 0])
   \<and> Printer_Println (doubles []) \<lparr>sink = 0, closed = True\<rparr> [0x54] [CloseCall 0]
       = (Some ClosedSession, [CloseCall 0])
   \<and> Printer_SetCharacterSize (doubles []) \<lparr>sink = 0, closed = True\<rparr> 8 0 [CloseCall 0]
       = (Some ClosedSession, [CloseCall 0])
   \<and> Printer_TransmitErrorStatus (doubles []) [0x10, 0x04, 0x03] \<lparr>sink = 0, closed = True\<rparr> [CloseCall 0]
       = (Inl ClosedSession, [CloseCall 0])"
proof -
  let ?s = "\<lparr>sink = 0 :: nat, closed = True\<rparr>"
  have c: "Printer_Close (doubles []) (NewPrinter 0) [] = (None, ?s, [CloseCall 0])"
    by (simp add: Printer_Close_def NewPrinter_def doubles_def)
  have "closed ?s" by simp
  with closed_session[where s = ?s and io = "doubles []" and h = "[CloseCall 0]"
      and b = "[0x54]" and width = 8 and height = 0 and query = "[0x10, 0x04, 0x03]"]
  have "Printer_Close (doubles []) ?s [CloseCall 0] = (Some ClosedSession, ?s, [CloseCall 0])
      \<and> Printer_LF (doubles []) ?s [CloseCall 0] = (Some ClosedSession, [CloseCall 0])
      \<and> Printer_Println (doubles []) ?s [0x54] [CloseCall 0] = (Some ClosedSession, [CloseCall 0])
      \<and> Printer_SetCharacterSize (doubles []) ?s 8 0 [CloseCall 0] = (Some ClosedSession, [CloseCall 0])
      \<and> Printer_TransmitErrorStatus (doubles []) [0x10, 0x04, 0x03] ?s [CloseCall 0]
          = (Inl ClosedSession, [CloseCall 0])"
    by blast
  with c show ?thesis by simp
qed

end
